theory Spec2Isabelle
  imports Complex_Main "HOL-Library.Word" "HOL-Library.Stream"
begin

unbundle bit_operations_syntax

section \<open>Machine types of AudioCommon/Mixer.h\<close>

text \<open>
  \<open>u32\<close> and \<open>s16\<close> are fixed-width machine integers; \<open>s16\<close> and \<open>s32\<close> values are
  read with \<open>sint\<close>. A C++ \<open>float\<close> is a value of the IEEE 754 single format and is
  modelled by the real number it denotes; infinities and NaN are left out. A real
  of the form \<open>m / 2^e\<close> with \<open>\<bar>m\<bar> < 2^24\<close> and \<open>e \<le> 149\<close> is a value of the single
  format (\<open>binary32\<close> below). The functions that Mixer.h defines compute in float
  arithmetic, every operation rounded; the functions modelled from the spec
  compute with the real numbers, as the formulas of the spec do.
\<close>

type_synonym u32 = "32 word"
type_synonym s16 = "16 word"
type_synonym s32 = "32 word"
type_synonym float = real

definition binary32 :: "real \<Rightarrow> bool" where
  "binary32 x \<longleftrightarrow>
     (\<exists>(m::int) (e::nat). \<bar>m\<bar> < 2 ^ 24 \<and> e \<le> 149 \<and> x = real_of_int m / 2 ^ e)"

section \<open>Float arithmetic\<close>

text \<open>
  A float operation of the code is the exact operation on the reals followed by
  the rounding \<open>fl\<close> to the single format, in the default rounding mode (to the
  nearest value, ties to the even significand); an expression of type \<open>float\<close> is
  evaluated in the single format. \<open>round_even y\<close> is the integer nearest to \<open>y\<close>,
  the even one of the two when \<open>y\<close> lies half-way between two integers.
\<close>

definition round_even :: "real \<Rightarrow> int" where
  "round_even y =
     (let k = \<lfloor>y\<rfloor>; d = y - real_of_int k
      in if d < 1 / 2 then k else if 1 / 2 < d then k + 1 else if even k then k else k + 1)"

text \<open>
  \<open>exponent x\<close> is the binary exponent of \<open>x\<close> in the single format: the \<open>e\<close> with
  \<open>2^e \<le> \<bar>x\<bar> < 2^(e+1)\<close>, kept within \<open>[-126, 127]\<close> (the subnormal numbers and zero
  have the exponent \<open>-126\<close>). \<open>expo n a\<close> searches it downwards from \<open>n - 126\<close>.
\<close>

fun expo :: "nat \<Rightarrow> real \<Rightarrow> int" where
  "expo 0 a = - 126"
| "expo (Suc n) a = (if 2 powi (int (Suc n) - 126) \<le> a then int (Suc n) - 126 else expo n a)"

definition exponent :: "real \<Rightarrow> int" where
  "exponent x = expo 253 \<bar>x\<bar>"

text \<open>
  \<open>fl x\<close> is \<open>x\<close> rounded to the single format: the values of the format around \<open>x\<close>
  are the multiples of \<open>2^(exponent x - 23)\<close> (24 bits of significand), and \<open>x\<close>
  goes to the nearest of them. The overflow to infinity of a result of magnitude
  \<open>2^128\<close> or more is not modelled; the theorems below keep their values under
  that.
\<close>

definition fl :: "real \<Rightarrow> float" where
  "fl x = real_of_int (round_even (x / 2 powi (exponent x - 23))) * 2 powi (exponent x - 23)"

section \<open>Free functions and macros\<close>

text \<open>
  \<open>const float rndrcp = 8.f / float(RAND_MAX)\<close>. \<open>RAND_MAX\<close> comes from the C
  library and is a parameter here; the conversion \<open>float(RAND_MAX)\<close> and the
  division round.
\<close>

definition rndrcp :: "int \<Rightarrow> float" where
  "rndrcp RAND_MAX = fl (8 / fl (real_of_int RAND_MAX))"

text \<open>
  \<open>#define DITHER_NOISE ((rand() * rndrcp) - 4.f)\<close>. The argument \<open>r\<close> is the value
  that the call of \<open>rand()\<close> returns; it is converted to \<open>float\<close> for the product.
\<close>

definition DITHER_NOISE :: "int \<Rightarrow> int \<Rightarrow> float" where
  "DITHER_NOISE RAND_MAX r = fl (fl (fl (real_of_int r) * rndrcp RAND_MAX) - 4)"

text \<open>
  \<open>Signed16ToFloat\<close>: \<open>return s * 0.000030517578125f\<close>. The constant is \<open>2^-15\<close> and
  \<open>s\<close> has 16 bits, so the conversion of \<open>s\<close> and the product are values of the
  single format and nothing is rounded (lemma \<open>Signed16ToFloat_rounded\<close>).
\<close>

definition Signed16ToFloat :: "s16 \<Rightarrow> float" where
  "Signed16ToFloat s = real_of_int (sint s) * 0.000030517578125"

text \<open>
  \<open>TriangleDither(float& sample, float& prev_dither)\<close>: both references are
  returned updated, as the pair \<open>(sample, prev_dither)\<close>. \<open>sample += dither -
  prev_dither\<close> is a float subtraction followed by a float addition.
\<close>

definition TriangleDither :: "int \<Rightarrow> int \<Rightarrow> float \<times> float \<Rightarrow> float \<times> float" where
  "TriangleDither RAND_MAX r sp =
     (let sample = fst sp; prev_dither = snd sp;
          dither = DITHER_NOISE RAND_MAX r;
          sample = fl (sample + fl (dither - prev_dither));
          prev_dither = dither
      in (sample, prev_dither))"

section \<open>Constants of \<open>CMixer\<close>\<close>

definition MAX_SAMPLES :: u32 where
  "MAX_SAMPLES = 2048"

definition INDEX_MASK :: u32 where
  "INDEX_MASK = MAX_SAMPLES * 2 - 1"

text \<open>
  \<open>std::array<float, MAX_SAMPLES * 2> m_float_buffer\<close>: the lists of exactly
  \<open>MAX_SAMPLES * 2\<close> floats.
\<close>

typedef float_buffer = "{xs :: float list. length xs = unat (MAX_SAMPLES * 2)}"
  by (rule exI [of _ "replicate (unat (MAX_SAMPLES * 2)) 0"]) simp


section \<open>Collaborators that the header only names\<close>

text \<open>
  The logging macros \<open>INFO_LOG\<close>, \<open>NOTICE_LOG\<close> and \<open>WARN_LOG\<close> write one line to the
  log. A function that logs returns the lines it wrote, oldest first.
\<close>

datatype log_level = INFO | NOTICE | WARN
datatype log_type = AUDIO_INTERFACE | DSPHLE
type_synonym log_line = "log_level \<times> log_type \<times> string"

text \<open>
  Modelled from the spec: the class \<open>WaveFileWriter\<close> of AudioCommon/WaveFile.h, which is
  not among the sources. The spec treats it as a sink object with \<open>Start(path, rate)\<close>,
  \<open>Stop()\<close> and \<open>SetSkipSilence(bool)\<close>; a writer is represented by the calls it has
  received so far, oldest first, so that a writer is unchanged exactly when it
  received no call.
\<close>

datatype wave_call = Start string nat | SetSkipSilence bool | Stop
type_synonym WaveFileWriter = "wave_call list"

section \<open>\<open>CMixer::MixerFifo\<close> and \<open>CMixer\<close>\<close>

text \<open>
  The two subclasses \<open>LinearMixerFifo\<close> and \<open>CubicMixerFifo\<close> add no field and differ
  in \<open>Interpolate\<close> only; the dynamic class of a fifo is the field \<open>kernel\<close>. The
  back pointer \<open>m_mixer\<close> is left out: what a fifo reads from its mixer is passed to
  the function that reads it.
\<close>

datatype interpolation = Linear | Cubic

record MixerFifo =
  kernel :: interpolation
  m_input_sample_rate :: u32
  m_float_buffer :: float_buffer
  m_write_index :: u32
  m_read_index :: u32
  m_lvolume :: s32
  m_rvolume :: s32
  m_num_left_i :: float
  m_fraction :: float

text \<open>
  The constructor \<open>MixerFifo(CMixer *mixer, unsigned sample_rate)\<close>. The member
  \<open>m_float_buffer\<close> is not in the initialiser list: its contents are indeterminate
  and are the parameter \<open>buf\<close>. The call of \<open>srand\<close> seeds the generator behind
  \<open>rand()\<close>, whose results are parameters of the functions that call it.
\<close>

definition new_MixerFifo :: "interpolation \<Rightarrow> float_buffer \<Rightarrow> u32 \<Rightarrow> MixerFifo" where
  "new_MixerFifo k buf sample_rate =
     \<lparr>kernel = k,
      m_input_sample_rate = sample_rate,
      m_float_buffer = buf,
      m_write_index = 0,
      m_read_index = 0,
      m_lvolume = 255,
      m_rvolume = 255,
      m_num_left_i = 0,
      m_fraction = 0\<rparr>"

definition new_LinearMixerFifo :: "float_buffer \<Rightarrow> u32 \<Rightarrow> MixerFifo" where
  "new_LinearMixerFifo buf sample_rate = new_MixerFifo Linear buf sample_rate"

definition new_CubicMixerFifo :: "float_buffer \<Rightarrow> u32 \<Rightarrow> MixerFifo" where
  "new_CubicMixerFifo buf sample_rate = new_MixerFifo Cubic buf sample_rate"

text \<open>The mutex \<open>m_cs_mixing\<close> is left out: the model is sequential.\<close>

record CMixer =
  m_dma_mixer :: MixerFifo
  m_streaming_mixer :: MixerFifo
  m_wiimote_speaker_mixer :: MixerFifo
  m_sample_rate :: u32
  g_wave_writer_dtk :: WaveFileWriter
  g_wave_writer_dsp :: WaveFileWriter
  m_log_dtk_audio :: bool
  m_log_dsp_audio :: bool
  m_speed :: float
  m_output_buffer :: "float list"
  m_l_dither_prev :: float
  m_r_dither_prev :: float

text \<open>
  The constructor \<open>CMixer(u32 BackendSampleRate)\<close>; \<open>b1\<close>, \<open>b2\<close> and \<open>b3\<close> are the
  indeterminate initial contents of the three sample buffers. The two writers and
  the output vector are default-constructed.
\<close>

definition new_CMixer ::
  "float_buffer \<Rightarrow> float_buffer \<Rightarrow> float_buffer \<Rightarrow> u32 \<Rightarrow> log_line list \<times> CMixer" where
  "new_CMixer b1 b2 b3 BackendSampleRate =
     ([(INFO, AUDIO_INTERFACE, ''Mixer is initialized'')],
      \<lparr>m_dma_mixer = new_CubicMixerFifo b1 32000,
       m_streaming_mixer = new_CubicMixerFifo b2 48000,
       m_wiimote_speaker_mixer = new_LinearMixerFifo b3 3000,
       m_sample_rate = BackendSampleRate,
       g_wave_writer_dtk = [],
       g_wave_writer_dsp = [],
       m_log_dtk_audio = False,
       m_log_dsp_audio = False,
       m_speed = 0,
       m_output_buffer = [],
       m_l_dither_prev = 0,
       m_r_dither_prev = 0\<rparr>)"

definition GetSampleRate :: "CMixer \<Rightarrow> u32" where
  "GetSampleRate m = m_sample_rate m"

definition GetCurrentSpeed :: "CMixer \<Rightarrow> float" where
  "GetCurrentSpeed m = m_speed m"

definition UpdateSpeed :: "float \<Rightarrow> CMixer \<Rightarrow> CMixer" where
  "UpdateSpeed val m = m\<lparr>m_speed := val\<rparr>"

subsection \<open>Audio logging\<close>

definition StartLogDTKAudio :: "string \<Rightarrow> CMixer \<Rightarrow> log_line list \<times> CMixer" where
  "StartLogDTKAudio filename m =
     (if \<not> m_log_dtk_audio m then
        ([(NOTICE, DSPHLE, ''Starting DTK Audio logging'')],
         m\<lparr>m_log_dtk_audio := True,
           g_wave_writer_dtk := g_wave_writer_dtk m @ [Start filename 48000, SetSkipSilence False]\<rparr>)
      else
        ([(WARN, DSPHLE, ''DTK Audio logging has already been started'')], m))"

definition StopLogDTKAudio :: "CMixer \<Rightarrow> log_line list \<times> CMixer" where
  "StopLogDTKAudio m =
     (if m_log_dtk_audio m then
        ([(NOTICE, DSPHLE, ''Stopping DTK Audio logging'')],
         m\<lparr>m_log_dtk_audio := False,
           g_wave_writer_dtk := g_wave_writer_dtk m @ [Stop]\<rparr>)
      else
        ([(WARN, DSPHLE, ''DTK Audio logging has already been stopped'')], m))"

definition StartLogDSPAudio :: "string \<Rightarrow> CMixer \<Rightarrow> log_line list \<times> CMixer" where
  "StartLogDSPAudio filename m =
     (if \<not> m_log_dsp_audio m then
        ([(NOTICE, DSPHLE, ''Starting DSP Audio logging'')],
         m\<lparr>m_log_dsp_audio := True,
           g_wave_writer_dsp := g_wave_writer_dsp m @ [Start filename 32000, SetSkipSilence False]\<rparr>)
      else
        ([(WARN, DSPHLE, ''DSP Audio logging has already been started'')], m))"

definition StopLogDSPAudio :: "CMixer \<Rightarrow> log_line list \<times> CMixer" where
  "StopLogDSPAudio m =
     (if m_log_dsp_audio m then
        ([(NOTICE, DSPHLE, ''Stopping DSP Audio logging'')],
         m\<lparr>m_log_dsp_audio := False,
           g_wave_writer_dsp := g_wave_writer_dsp m @ [Stop]\<rparr>)
      else
        ([(WARN, DSPHLE, ''DSP Audio logging has already been stopped'')], m))"

section \<open>Runs of \<open>TriangleDither\<close>\<close>

text \<open>
  Consecutive calls of \<open>TriangleDither\<close> on the samples \<open>xs\<close>, all with the same
  variable as \<open>prev_dither\<close>. The stream \<open>rs\<close> gives the results of the successive
  calls of \<open>rand()\<close>. The result is the list of dithered samples and the final
  value of the variable.
\<close>

fun TriangleDither_run :: "int \<Rightarrow> int stream \<Rightarrow> float \<Rightarrow> float list \<Rightarrow> float list \<times> float" where
  "TriangleDither_run RAND_MAX rs prev [] = ([], prev)"
| "TriangleDither_run RAND_MAX rs prev (x # xs) =
     (let (y, p) = TriangleDither RAND_MAX (shd rs) (x, prev);
          (ys, p') = TriangleDither_run RAND_MAX (stl rs) p xs
      in (y # ys, p'))"



section \<open>The sample ring buffer\<close>

text \<open>
  Modelled from the spec: the accesses to \<open>m_float_buffer\<close>, which are in Mixer.cpp, not
  among the sources. An index is masked with \<open>INDEX_MASK\<close> on access (only the
  masked value indexes the storage); the masked index is below the array's size,
  so no access is out of range.
\<close>

definition sample :: "float_buffer \<Rightarrow> u32 \<Rightarrow> float" where
  "sample b idx = Rep_float_buffer b ! unat (idx AND INDEX_MASK)"




text \<open>Modelled from the spec: \<open>advance_read(n)\<close> advances \<open>read_index\<close> by \<open>n\<close>.\<close>

definition advance_read :: "MixerFifo \<Rightarrow> u32 \<Rightarrow> MixerFifo" where
  "advance_read f n = f\<lparr>m_read_index := m_read_index f + n\<rparr>"


section \<open>The resampling fifo\<close>



subsection \<open>Rate control\<close>

text \<open>
  Modelled from the spec: the constants of the rate controller. The header declares
  \<open>LOW_WATERMARK\<close>, \<open>MAX_FREQ_SHIFT\<close>, \<open>CONTROL_FACTOR\<close> and \<open>CONTROL_AVG\<close> as
  \<open>static const float\<close> and Mixer.cpp, which is not among the sources, gives them
  their values: they are parameters. \<open>target_capacity\<close> is the spec's name for the
  size of the window the fill fraction is taken of.
\<close>

record control =
  LOW_WATERMARK :: float
  MAX_FREQ_SHIFT :: float
  CONTROL_FACTOR :: float
  CONTROL_AVG :: float
  target_capacity :: float

text \<open>
  Modelled from the spec: the clamp of a value to the interval \<open>[lo, hi]\<close>; the function
  the code uses for it is not among the sources.
\<close>

definition Clamp :: "float \<Rightarrow> float \<Rightarrow> float \<Rightarrow> float" where
  "Clamp val lo hi = (if val < lo then lo else if hi < val then hi else val)"

text \<open>
  Modelled from the spec: the rate controller of the pull algorithm (step 2).
  \<open>error = fill_fraction - low_watermark\<close>; an exponential moving average of
  \<open>error\<close> with smoothing constant \<open>CONTROL_AVG\<close>, kept in \<open>avg\<close>; the averaged error
  times \<open>CONTROL_FACTOR\<close> is the proposed frequency shift, which is clamped to
  \<open>[1 - MAX_FREQ_SHIFT, 1 + MAX_FREQ_SHIFT]\<close>. The result is the new average and the
  frequency shift.
\<close>

definition rate_control :: "control \<Rightarrow> float \<Rightarrow> float \<Rightarrow> float \<times> float" where
  "rate_control c avg fill_fraction =
     (let error = fill_fraction - LOW_WATERMARK c;
          avg = (error + avg * (CONTROL_AVG c - 1)) / CONTROL_AVG c;
          frequency_shift = avg * CONTROL_FACTOR c;
          frequency_shift = Clamp frequency_shift (1 - MAX_FREQ_SHIFT c) (1 + MAX_FREQ_SHIFT c)
      in (avg, frequency_shift))"

text \<open>
  Modelled from the spec: the rate controller fed with a sequence of fill fractions,
  one per pull, its average kept from one pull to the next; the result is the
  list of the frequency shifts it computes, in order.
\<close>

fun rate_control_run :: "control \<Rightarrow> float \<Rightarrow> float list \<Rightarrow> float list" where
  "rate_control_run c avg [] = []"
| "rate_control_run c avg (fill_fraction # rest) =
     (let (avg', frequency_shift) = rate_control c avg fill_fraction
      in frequency_shift # rate_control_run c avg' rest)"

subsection \<open>Interpolation kernels\<close>



subsection \<open>Pull\<close>


text \<open>
  Modelled from the spec: the overrun policy, as the consumer meets it (spec 3 and
  8). The producer never touches \<open>read_index\<close>; when more than \<open>N\<close> frames were
  written since the read index, the oldest of them are overwritten and lost, and
  the unread frames are the newest \<open>N\<close>. The consumer skips the lost frames before
  it reads: \<open>read_index\<close> becomes \<open>write_index - N\<close>.
\<close>

definition skip_lost :: "MixerFifo \<Rightarrow> MixerFifo" where
  "skip_lost f =
     (let unread = m_write_index f - m_read_index f
      in if MAX_SAMPLES < unread then advance_read f (unread - MAX_SAMPLES) else f)"







section \<open>The mix engine\<close>




section \<open>Example states\<close>

definition example_buffer :: float_buffer where
  "example_buffer = Abs_float_buffer (replicate 4096 7)"


definition example_mixer :: CMixer where
  "example_mixer = snd (new_CMixer example_buffer example_buffer example_buffer 48000)"

definition example_control :: control where
  "example_control =
     \<lparr>LOW_WATERMARK = 1 / 2, MAX_FREQ_SHIFT = 1 / 50, CONTROL_FACTOR = 1 / 5,
      CONTROL_AVG = 32, target_capacity = 2048\<rparr>"

section \<open>Properties of the rounding\<close>

lemma round_even_cases:
  "round_even y = \<lfloor>y\<rfloor> \<or> round_even y = \<lfloor>y\<rfloor> + 1"
  by (simp add: round_even_def Let_def)

lemma round_even_err: "\<bar>real_of_int (round_even y) - y\<bar> \<le> 1 / 2"
proof -
  have "real_of_int \<lfloor>y\<rfloor> \<le> y" and "y < real_of_int \<lfloor>y\<rfloor> + 1"
    by linarith+
  then show ?thesis
    by (simp add: round_even_def Let_def)
qed

lemma round_even_le: "y \<le> real_of_int K \<Longrightarrow> round_even y \<le> K"
proof -
  assume le: "y \<le> real_of_int K"
  show ?thesis
  proof (cases "y = real_of_int K")
    case True
    then show ?thesis by (simp add: round_even_def Let_def)
  next
    case False
    with le have "y < real_of_int K" by simp
    then have "\<lfloor>y\<rfloor> < K" by linarith
    then show ?thesis
      using round_even_cases [of y] by linarith
  qed
qed

lemma round_even_ge: "real_of_int K \<le> y \<Longrightarrow> K \<le> round_even y"
proof -
  assume "real_of_int K \<le> y"
  then have "K \<le> \<lfloor>y\<rfloor>" by linarith
  then show ?thesis
    using round_even_cases [of y] by linarith
qed

lemma round_even_int [simp]: "round_even (real_of_int k) = k"
  by (simp add: round_even_def Let_def)

lemma round_even_tie_le:
  assumes "y \<le> real_of_int K + 1 / 2" and "even K"
  shows "round_even y \<le> K"
proof (cases "y < real_of_int K + 1 / 2")
  case True
  show ?thesis
  proof (cases "y < real_of_int K")
    case True
    then show ?thesis using round_even_le [of y K] by simp
  next
    case False
    then have f: "\<lfloor>y\<rfloor> = K" using True by linarith
    then show ?thesis using True by (simp add: round_even_def Let_def)
  qed
next
  case False
  with assms(1) have y: "y = real_of_int K + 1 / 2" by simp
  then have "\<lfloor>y\<rfloor> = K" by linarith
  then show ?thesis using y assms(2) by (simp add: round_even_def Let_def)
qed

lemma round_even_mono: "x \<le> y \<Longrightarrow> round_even x \<le> round_even y"
proof -
  assume le: "x \<le> y"
  then have fl: "\<lfloor>x\<rfloor> \<le> \<lfloor>y\<rfloor>" by (rule floor_mono)
  show ?thesis
  proof (cases "\<lfloor>x\<rfloor> = \<lfloor>y\<rfloor>")
    case True
    with le show ?thesis
      by (auto simp add: round_even_def Let_def)
  next
    case False
    with fl have "\<lfloor>x\<rfloor> + 1 \<le> \<lfloor>y\<rfloor>" by simp
    then show ?thesis
      using round_even_cases [of x] round_even_cases [of y] by linarith
  qed
qed

lemma powi2_less_iff: "(2::real) powi m < 2 powi n \<longleftrightarrow> m < n"
proof
  assume l: "(2::real) powi m < 2 powi n"
  show "m < n"
  proof (rule ccontr)
    assume "\<not> m < n"
    then have "n \<le> m" by simp
    then have "(2::real) powi n \<le> 2 powi m"
      by (rule power_int_increasing) simp
    with l show False by simp
  qed
next
  assume "m < n"
  then show "(2::real) powi m < 2 powi n"
    by (rule power_int_strict_increasing) simp
qed

lemma powi2_le_iff: "(2::real) powi m \<le> 2 powi n \<longleftrightarrow> m \<le> n"
  using powi2_less_iff [of n m] by (simp add: not_less [symmetric])

lemma expo_ge_min: "- 126 \<le> expo n a"
  by (induction n) simp_all

lemma expo_le_max: "expo n a \<le> int n - 126"
  by (induction n) simp_all

lemma expo_less: "a < 2 powi k \<Longrightarrow> - 126 < k \<Longrightarrow> expo n a < k"
proof (induction n)
  case 0
  then show ?case by simp
next
  case (Suc n)
  show ?case
  proof (cases "2 powi (int (Suc n) - 126) \<le> a")
    case True
    with Suc.prems(1) have "(2::real) powi (int (Suc n) - 126) < 2 powi k" by simp
    then have "int (Suc n) - 126 < k"
      by (simp add: powi2_less_iff)
    with True show ?thesis by simp
  next
    case False
    with Suc show ?thesis by simp
  qed
qed

lemma expo_lower: "- 126 < expo n a \<Longrightarrow> 2 powi (expo n a) \<le> a"
  by (induction n) (simp_all split: if_splits)

lemma expo_ge: "2 powi e \<le> a \<Longrightarrow> e \<le> int n - 126 \<Longrightarrow> e \<le> expo n a"
proof (induction n)
  case 0
  then show ?case by simp
next
  case (Suc n)
  show ?case
  proof (cases "2 powi (int (Suc n) - 126) \<le> a")
    case True
    with Suc.prems(2) show ?thesis by simp
  next
    case False
    with Suc.prems(1) have "(2::real) powi e < 2 powi (int (Suc n) - 126)" by simp
    then have "e < int (Suc n) - 126"
      by (simp add: powi2_less_iff)
    then have "e \<le> int n - 126" by simp
    from Suc.IH [OF Suc.prems(1) this] False show ?thesis by simp
  qed
qed

lemma expo_upper: "a < 2 powi (int n - 125) \<Longrightarrow> a < 2 powi (expo n a + 1)"
proof (induction n)
  case 0
  then show ?case by simp
next
  case (Suc n)
  show ?case
  proof (cases "2 powi (int (Suc n) - 126) \<le> a")
    case True
    have "int (Suc n) - 126 + 1 = int (Suc n) - 125" by simp
    with True Suc.prems show ?thesis by simp
  next
    case False
    then have "a < 2 powi (int n - 125)"
      by (simp add: algebra_simps)
    from Suc.IH [OF this] False show ?thesis by simp
  qed
qed

lemma exponent_range: "- 126 \<le> exponent x \<and> exponent x \<le> 127"
  using expo_ge_min [of 253 "\<bar>x\<bar>"] expo_le_max [of 253 "\<bar>x\<bar>"]
  by (simp add: exponent_def)

lemma exponent_less: "\<bar>x\<bar> < 2 powi k \<Longrightarrow> - 126 < k \<Longrightarrow> exponent x < k"
  unfolding exponent_def by (rule expo_less)

lemma exponent_lower: "- 126 < exponent x \<Longrightarrow> 2 powi (exponent x) \<le> \<bar>x\<bar>"
  unfolding exponent_def by (rule expo_lower)

lemma exponent_upper: "\<bar>x\<bar> < 2 powi 128 \<Longrightarrow> \<bar>x\<bar> < 2 powi (exponent x + 1)"
  unfolding exponent_def using expo_upper [of "\<bar>x\<bar>" 253] by simp

lemma exponent_eq:
  assumes "2 powi e \<le> \<bar>x\<bar>" and "\<bar>x\<bar> < 2 powi (e + 1)" and "- 126 \<le> e" and "e \<le> 127"
  shows "exponent x = e"
proof -
  have "e \<le> exponent x"
    unfolding exponent_def using assms(1,4) by (intro expo_ge) simp_all
  moreover have "exponent x < e + 1"
    using assms(2,3) by (intro exponent_less) simp_all
  ultimately show ?thesis by simp
qed

lemma exponent_subnormal:
  assumes "\<bar>x\<bar> < 2 powi (- 125)"
  shows "exponent x = - 126"
  using exponent_less [OF assms] exponent_range [of x] by simp

lemma exponent_minus [simp]: "exponent (- x) = exponent x"
  by (simp add: exponent_def)

lemma quantum_pos: "0 < (2::real) powi q"
  by simp

lemma binade_lower: "(2::real) powi e = 2 ^ 23 * 2 powi (e - 23)"
proof -
  have "(2::real) powi (23 + (e - 23)) = 2 powi 23 * 2 powi (e - 23)"
    by (rule power_int_add) simp
  then show ?thesis by simp
qed

lemma binade_upper: "(2::real) powi (e + 1) = 2 ^ 24 * 2 powi (e - 23)"
proof -
  have "(2::real) powi (24 + (e - 23)) = 2 powi 24 * 2 powi (e - 23)"
    by (rule power_int_add) simp
  moreover have "24 + (e - 23) = e + 1" by simp
  ultimately show ?thesis by simp
qed

lemma fl_err: "\<bar>fl x - x\<bar> \<le> 2 powi (exponent x - 24)"
proof -
  let ?q = "(2::real) powi (exponent x - 23)"
  have q: "0 < ?q" by simp
  have "\<bar>real_of_int (round_even (x / ?q)) - x / ?q\<bar> \<le> 1 / 2"
    by (rule round_even_err)
  then have "\<bar>real_of_int (round_even (x / ?q)) - x / ?q\<bar> * ?q \<le> 1 / 2 * ?q"
    using q by (intro mult_right_mono) simp_all
  moreover have "\<bar>real_of_int (round_even (x / ?q)) - x / ?q\<bar> * ?q = \<bar>fl x - x\<bar>"
  proof -
    have "\<bar>real_of_int (round_even (x / ?q)) - x / ?q\<bar> * ?q
        = \<bar>(real_of_int (round_even (x / ?q)) - x / ?q) * ?q\<bar>"
      using q by (simp add: abs_mult)
    also have "(real_of_int (round_even (x / ?q)) - x / ?q) * ?q = fl x - x"
      using q by (simp add: fl_def algebra_simps)
    finally show ?thesis .
  qed
  moreover have "1 / 2 * ?q = 2 powi (exponent x - 24)"
  proof -
    have "(2::real) powi (1 + (exponent x - 24)) = 2 powi 1 * 2 powi (exponent x - 24)"
      by (rule power_int_add) simp
    moreover have "1 + (exponent x - 24) = exponent x - 23" by simp
    ultimately show ?thesis by simp
  qed
  ultimately show ?thesis by simp
qed

lemma fl_on_grid:
  assumes "x = real_of_int k * 2 powi (exponent x - 23)"
  shows "fl x = x"
proof -
  have "x / 2 powi (exponent x - 23) = real_of_int k"
    using assms by (metis nonzero_mult_div_cancel_right power_int_eq_0_iff zero_neq_numeral)
  then show ?thesis
    using assms by (simp add: fl_def)
qed

lemma fl_exact:
  assumes "x = real_of_int k * 2 powi j" and "exponent x - 23 \<le> j"
  shows "fl x = x"
proof -
  define q where "q = exponent x - 23"
  have "(2::real) powi (q + (j - q)) = 2 powi q * 2 powi (j - q)"
    by (rule power_int_add) simp
  moreover have "(2::real) powi (j - q) = 2 ^ nat (j - q)"
    using assms(2) by (simp add: power_int_def q_def)
  ultimately have "(2::real) powi j = 2 ^ nat (j - q) * 2 powi q"
    by simp
  then have "real_of_int k * 2 powi j = real_of_int (k * 2 ^ nat (j - q)) * 2 powi q"
    by simp
  with assms(1) have "x = real_of_int (k * 2 ^ nat (j - q)) * 2 powi (exponent x - 23)"
    by (simp only: q_def)
  then show ?thesis by (rule fl_on_grid)
qed

lemma fl_le_of_scaled:
  assumes "x \<le> real_of_int K * 2 powi (exponent x - 23)"
  shows "fl x \<le> real_of_int K * 2 powi (exponent x - 23)"
proof -
  let ?q = "(2::real) powi (exponent x - 23)"
  have q: "0 < ?q" by simp
  from assms have "x / ?q \<le> real_of_int K"
    using q by (simp add: pos_divide_le_eq)
  then have "round_even (x / ?q) \<le> K"
    by (rule round_even_le)
  then have "real_of_int (round_even (x / ?q)) \<le> real_of_int K"
    by simp
  then show ?thesis
    unfolding fl_def using q by (intro mult_right_mono) simp_all
qed

lemma fl_ge_of_scaled:
  assumes "real_of_int K * 2 powi (exponent x - 23) \<le> x"
  shows "real_of_int K * 2 powi (exponent x - 23) \<le> fl x"
proof -
  let ?q = "(2::real) powi (exponent x - 23)"
  have q: "0 < ?q" by simp
  from assms have "real_of_int K \<le> x / ?q"
    using q by (simp add: pos_le_divide_eq)
  then have "K \<le> round_even (x / ?q)"
    by (rule round_even_ge)
  then have "real_of_int K \<le> real_of_int (round_even (x / ?q))"
    by simp
  then show ?thesis
    unfolding fl_def using q by (intro mult_right_mono) simp_all
qed

lemma fl_le_binade_top:
  assumes "\<bar>x\<bar> < 2 powi 128"
  shows "fl x \<le> 2 powi (exponent x + 1)"
proof -
  have "x \<le> \<bar>x\<bar>" by simp
  also have "\<bar>x\<bar> < 2 powi (exponent x + 1)"
    using assms by (rule exponent_upper)
  finally have "x \<le> real_of_int (2 ^ 24) * 2 powi (exponent x - 23)"
    by (simp add: binade_upper)
  then have "fl x \<le> real_of_int (2 ^ 24) * 2 powi (exponent x - 23)"
    by (rule fl_le_of_scaled)
  then show ?thesis by (simp add: binade_upper)
qed

lemma fl_ge_binade_bottom:
  assumes "\<bar>x\<bar> < 2 powi 128"
  shows "- (2 powi (exponent x + 1)) \<le> fl x"
proof -
  have "\<bar>x\<bar> < 2 powi (exponent x + 1)"
    using assms by (rule exponent_upper)
  then have "- (2 powi (exponent x + 1)) \<le> x" by linarith
  then have "real_of_int (- (2 ^ 24)) * 2 powi (exponent x - 23) \<le> x"
    by (simp add: binade_upper)
  then have "real_of_int (- (2 ^ 24)) * 2 powi (exponent x - 23) \<le> fl x"
    by (rule fl_ge_of_scaled)
  then show ?thesis by (simp add: binade_upper)
qed

lemma fl_ge_pow:
  assumes "2 powi (exponent x) \<le> x"
  shows "2 powi (exponent x) \<le> fl x"
proof -
  from assms have "real_of_int (2 ^ 23) * 2 powi (exponent x - 23) \<le> x"
    using binade_lower [of "exponent x"] by simp
  then have "real_of_int (2 ^ 23) * 2 powi (exponent x - 23) \<le> fl x"
    by (rule fl_ge_of_scaled)
  then show ?thesis using binade_lower [of "exponent x"] by simp
qed

lemma fl_le_neg_pow:
  assumes "x \<le> - (2 powi (exponent x))"
  shows "fl x \<le> - (2 powi (exponent x))"
proof -
  from assms have "x \<le> real_of_int (- (2 ^ 23)) * 2 powi (exponent x - 23)"
    using binade_lower [of "exponent x"] by simp
  then have "fl x \<le> real_of_int (- (2 ^ 23)) * 2 powi (exponent x - 23)"
    by (rule fl_le_of_scaled)
  then show ?thesis using binade_lower [of "exponent x"] by simp
qed

lemma fl_mono:
  assumes le: "x \<le> y" and fx: "\<bar>x\<bar> < 2 powi 128" and fy: "\<bar>y\<bar> < 2 powi 128"
  shows "fl x \<le> fl y"
proof -
  consider "exponent x = exponent y" | "exponent x < exponent y" | "exponent y < exponent x"
    by linarith
  then show ?thesis
  proof cases
    case 1
    let ?q = "(2::real) powi (exponent y - 23)"
    have q: "0 < ?q" by simp
    from le have "x / ?q \<le> y / ?q"
      using q by (simp add: divide_right_mono)
    then have "round_even (x / ?q) \<le> round_even (y / ?q)"
      by (rule round_even_mono)
    then have "real_of_int (round_even (x / ?q)) * ?q \<le> real_of_int (round_even (y / ?q)) * ?q"
      using q by (intro mult_right_mono) simp_all
    then show ?thesis by (simp add: fl_def 1)
  next
    case 2
    have "- 126 \<le> exponent x" using exponent_range [of x] by simp
    with 2 have "- 126 < exponent y" by simp
    then have ylow: "2 powi (exponent y) \<le> \<bar>y\<bar>" by (rule exponent_lower)
    have xup: "\<bar>x\<bar> < 2 powi (exponent x + 1)" using fx by (rule exponent_upper)
    have "exponent x + 1 \<le> exponent y" using 2 by simp
    then have step: "(2::real) powi (exponent x + 1) \<le> 2 powi (exponent y)"
      by (simp add: powi2_le_iff)
    have "2 powi (exponent y) \<le> y"
    proof (rule ccontr)
      assume "\<not> 2 powi (exponent y) \<le> y"
      with ylow have "y < 0" and "2 powi (exponent y) \<le> - y" by linarith+
      with le have "2 powi (exponent y) \<le> \<bar>x\<bar>" by linarith
      with xup step show False by linarith
    qed
    then have "2 powi (exponent y) \<le> fl y" by (rule fl_ge_pow)
    moreover have "fl x \<le> 2 powi (exponent x + 1)" using fx by (rule fl_le_binade_top)
    ultimately show ?thesis using step by linarith
  next
    case 3
    have "- 126 \<le> exponent y" using exponent_range [of y] by simp
    with 3 have "- 126 < exponent x" by simp
    then have xlow: "2 powi (exponent x) \<le> \<bar>x\<bar>" by (rule exponent_lower)
    have yup: "\<bar>y\<bar> < 2 powi (exponent y + 1)" using fy by (rule exponent_upper)
    have "exponent y + 1 \<le> exponent x" using 3 by simp
    then have step: "(2::real) powi (exponent y + 1) \<le> 2 powi (exponent x)"
      by (simp add: powi2_le_iff)
    have "x \<le> - (2 powi (exponent x))"
    proof (rule ccontr)
      assume "\<not> x \<le> - (2 powi (exponent x))"
      with xlow have "0 \<le> x" and "2 powi (exponent x) \<le> x" by linarith+
      with le have "2 powi (exponent x) \<le> \<bar>y\<bar>" by linarith
      with yup step show False by linarith
    qed
    then have "fl x \<le> - (2 powi (exponent x))" by (rule fl_le_neg_pow)
    moreover have "- (2 powi (exponent y + 1)) \<le> fl y" using fy by (rule fl_ge_binade_bottom)
    ultimately show ?thesis using step by linarith
  qed
qed

lemma fl_eval:
  assumes "2 powi e \<le> \<bar>x\<bar>" and "\<bar>x\<bar> < 2 powi (e + 1)" and "- 126 \<le> e" and "e \<le> 127"
  shows "fl x = real_of_int (round_even (x / 2 powi (e - 23))) * 2 powi (e - 23)"
  using exponent_eq [OF assms] by (simp add: fl_def)

lemma fl_0 [simp]: "fl 0 = 0"
  using round_even_int [of 0] by (simp add: fl_def)

lemma exponent_lower_normal:
  assumes "2 powi (- 126) \<le> \<bar>x\<bar>"
  shows "2 powi (exponent x) \<le> \<bar>x\<bar>"
proof (cases "- 126 < exponent x")
  case True
  then show ?thesis by (rule exponent_lower)
next
  case False
  with exponent_range [of x] have "exponent x = - 126" by simp
  with assms show ?thesis by simp
qed

lemma fl_representable:
  assumes "\<bar>k\<bar> < 2 ^ 24" and "- 149 \<le> j"
  shows "fl (real_of_int k * 2 powi j) = real_of_int k * 2 powi j"
proof -
  let ?x = "real_of_int k * 2 powi j"
  have "\<bar>real_of_int k\<bar> < 2 ^ 24"
    using assms(1) by (metis of_int_abs of_int_less_numeral_power_cancel_iff)
  then have "\<bar>?x\<bar> < 2 ^ 24 * 2 powi j"
    by (simp add: abs_mult)
  moreover have "(2::real) powi (24 + j) = 2 powi 24 * 2 powi j"
    by (rule power_int_add) simp
  ultimately have "\<bar>?x\<bar> < 2 powi (j + 24)"
    by (simp add: add.commute)
  then have "exponent ?x < j + 24"
    using assms(2) by (intro exponent_less) simp_all
  then have "exponent ?x - 23 \<le> j" by simp
  with refl show ?thesis by (rule fl_exact)
qed

lemma fl_int:
  assumes "\<bar>k\<bar> < 2 ^ 24"
  shows "fl (real_of_int k) = real_of_int k"
  using fl_representable [OF assms, of 0] by simp

lemma fl_rel_err:
  assumes "2 powi (- 126) \<le> \<bar>x\<bar>"
  shows "\<bar>fl x - x\<bar> \<le> \<bar>x\<bar> / 2 ^ 24"
proof -
  have "(2::real) powi (exponent x + (- 24)) = 2 powi (exponent x) * 2 powi (- 24)"
    by (rule power_int_add) simp
  then have "(2::real) powi (exponent x - 24) = 2 powi (exponent x) / 2 ^ 24"
    by (simp add: power_int_minus field_simps)
  also have "\<dots> \<le> \<bar>x\<bar> / 2 ^ 24"
    using exponent_lower_normal [OF assms] by (simp add: divide_right_mono)
  finally show ?thesis
    using fl_err [of x] by linarith
qed

lemma fl_8: "fl 8 = 8" and fl_m8: "fl (- 8) = - 8" and fl_4: "fl 4 = 4" and fl_m4: "fl (- 4) = - 4"
  and fl_1: "fl 1 = 1"
  using fl_int [of 8] fl_int [of "- 8"] fl_int [of 4] fl_int [of "- 4"] fl_int [of 1]
  by simp_all

lemma fl_2_31: "fl 2147483648 = 2147483648"
  using fl_representable [of 1 31] by simp

lemma fl_tie_8: "fl (8 + 1 / 2 ^ 21) = 8"
proof -
  have "fl (8 + 1 / 2 ^ 21)
      = real_of_int (round_even ((8 + 1 / 2 ^ 21) / 2 powi (3 - 23))) * 2 powi (3 - 23)"
    by (rule fl_eval) simp_all
  moreover have "(8 + 1 / 2 ^ 21) / 2 powi (3 - 23) = real_of_int 8388608 + 1 / 2"
    by (simp add: power_int_minus field_simps)
  moreover have "round_even (real_of_int 8388608 + 1 / 2) \<le> 8388608"
    by (rule round_even_tie_le) simp_all
  moreover have "8388608 \<le> round_even (real_of_int 8388608 + 1 / 2)"
    by (rule round_even_ge) simp
  ultimately show ?thesis
    by (simp add: power_int_minus)
qed

section \<open>Input conversion\<close>

lemma sint_s16_bounds: "- 32768 \<le> sint (s :: s16) \<and> sint s < 32768"
  using sint_ge [of s] sint_lt [of s] by simp

text \<open>
  C6. For every signed 16-bit sample \<open>s\<close>, \<open>Signed16ToFloat s\<close> is \<open>s / 32768\<close>: the
  constant of the code is \<open>2^-15\<close>, the product is a value of the single format
  (so the float multiplication does not round), and it lies in \<open>[-1, 1)\<close>.
\<close>

theorem Signed16ToFloat_exact:
  "Signed16ToFloat s = real_of_int (sint s) / 32768
   \<and> (0.000030517578125 :: real) = 1 / 2 ^ 15
   \<and> binary32 (Signed16ToFloat s)
   \<and> - 1 \<le> Signed16ToFloat s \<and> Signed16ToFloat s < 1"
proof -
  have eq: "Signed16ToFloat s = real_of_int (sint s) / 32768"
    by (simp add: Signed16ToFloat_def)
  have b: "- 32768 \<le> sint s" "sint s < 32768"
    using sint_s16_bounds [of s] by simp_all
  have rep: "binary32 (Signed16ToFloat s)"
    unfolding binary32_def
  proof (intro exI conjI)
    show "\<bar>sint s\<bar> < 2 ^ 24" using b by simp
    show "(15::nat) \<le> 149" by simp
    show "Signed16ToFloat s = real_of_int (sint s) / 2 ^ 15" using eq by simp
  qed
  have lo': "- 1 \<le> real_of_int k / 32768" if "- 32768 \<le> k" for k :: int
    using that by simp
  have hi': "real_of_int k / 32768 < 1" if "k < 32768" for k :: int
    using that by simp
  have lo: "- 1 \<le> Signed16ToFloat s"
    unfolding eq by (rule lo' [OF b(1)])
  have hi: "Signed16ToFloat s < 1"
    unfolding eq by (rule hi' [OF b(2)])
  have c: "(0.000030517578125 :: real) = 1 / 2 ^ 15"
    by simp
  from eq c rep lo hi show ?thesis by blast
qed

lemma Signed16ToFloat_rounded:
  "fl (fl (real_of_int (sint s)) * fl 0.000030517578125) = Signed16ToFloat s"
proof -
  have "- 32768 \<le> sint s" and "sint s < 32768"
    using sint_s16_bounds [of s] by simp_all
  then have b: "\<bar>sint s\<bar> < 2 ^ 24"
    by simp
  have c: "fl 0.000030517578125 = 0.000030517578125"
    using fl_representable [of 1 "- 15"] by (simp add: power_int_minus)
  have p: "real_of_int (sint s) * 0.000030517578125 = real_of_int (sint s) * 2 powi (- 15)"
    by (simp add: power_int_minus)
  have "fl (real_of_int (sint s) * 2 powi (- 15)) = real_of_int (sint s) * 2 powi (- 15)"
    using b by (rule fl_representable) simp
  then show ?thesis
    unfolding c fl_int [OF b] Signed16ToFloat_def p .
qed

section \<open>Ring buffer geometry\<close>

text \<open>
  C7. The capacity is \<open>MAX_SAMPLES = 2048 = 2^11\<close> frames, the storage holds exactly
  \<open>2 * 2048\<close> floats, \<open>INDEX_MASK = MAX_SAMPLES * 2 - 1 = 4095\<close>, and every index
  masked with \<open>INDEX_MASK\<close> is a position of the storage array.
\<close>

theorem ring_buffer_geometry:
  "MAX_SAMPLES = 2048 \<and> unat MAX_SAMPLES = 2 ^ 11
   \<and> INDEX_MASK = 4095 \<and> INDEX_MASK = MAX_SAMPLES * 2 - 1
   \<and> length (Rep_float_buffer b) = 2 * unat MAX_SAMPLES
   \<and> length (Rep_float_buffer b) = 4096
   \<and> unat (i AND INDEX_MASK) < length (Rep_float_buffer b)"
proof -
  have len: "length (Rep_float_buffer b) = 4096"
    using Rep_float_buffer [of b] by (simp add: MAX_SAMPLES_def)
  have m: "INDEX_MASK = 4095"
    by (simp add: INDEX_MASK_def MAX_SAMPLES_def)
  have "i AND INDEX_MASK \<le> INDEX_MASK"
    by (rule word_and_le1)
  then have "unat (i AND INDEX_MASK) \<le> unat INDEX_MASK"
    by (simp add: word_le_nat_alt)
  then have idx: "unat (i AND INDEX_MASK) < 4096"
    by (simp add: m)
  show ?thesis using len m idx by (simp add: MAX_SAMPLES_def INDEX_MASK_def)
qed

section \<open>Construction\<close>

text \<open>
  C9. The constructor makes exactly the three fifos of the record: the DMA fifo
  (32000 Hz) and the streaming fifo (48000 Hz) are cubic, the Wiimote speaker fifo
  (3000 Hz) is linear.
\<close>

theorem constructor_fifos:
  "kernel (m_dma_mixer (snd (new_CMixer b1 b2 b3 rate))) = Cubic
   \<and> m_input_sample_rate (m_dma_mixer (snd (new_CMixer b1 b2 b3 rate))) = 32000
   \<and> kernel (m_streaming_mixer (snd (new_CMixer b1 b2 b3 rate))) = Cubic
   \<and> m_input_sample_rate (m_streaming_mixer (snd (new_CMixer b1 b2 b3 rate))) = 48000
   \<and> kernel (m_wiimote_speaker_mixer (snd (new_CMixer b1 b2 b3 rate))) = Linear
   \<and> m_input_sample_rate (m_wiimote_speaker_mixer (snd (new_CMixer b1 b2 b3 rate))) = 3000"
  by (simp add: new_CMixer_def new_CubicMixerFifo_def new_LinearMixerFifo_def new_MixerFifo_def)

section \<open>Audio logging\<close>

text \<open>
  C8. A start of a log that is started and a stop of a log that is stopped write
  one warning and return the mixer as it was, for the DTK log and for the DSP
  log; so a second start after a start, and a second stop after a stop, only
  warn and leave the state of the first call.
\<close>

theorem redundant_log_calls:
  assumes "m_log_dtk_audio a" and "\<not> m_log_dtk_audio b"
    and "m_log_dsp_audio c" and "\<not> m_log_dsp_audio d"
  shows "StartLogDTKAudio filename a = ([(WARN, DSPHLE, ''DTK Audio logging has already been started'')], a)
    \<and> StopLogDTKAudio b = ([(WARN, DSPHLE, ''DTK Audio logging has already been stopped'')], b)
    \<and> StartLogDSPAudio filename c = ([(WARN, DSPHLE, ''DSP Audio logging has already been started'')], c)
    \<and> StopLogDSPAudio d = ([(WARN, DSPHLE, ''DSP Audio logging has already been stopped'')], d)
    \<and> StartLogDTKAudio filename' (snd (StartLogDTKAudio filename m))
        = ([(WARN, DSPHLE, ''DTK Audio logging has already been started'')], snd (StartLogDTKAudio filename m))
    \<and> StopLogDTKAudio (snd (StopLogDTKAudio m))
        = ([(WARN, DSPHLE, ''DTK Audio logging has already been stopped'')], snd (StopLogDTKAudio m))
    \<and> StartLogDSPAudio filename' (snd (StartLogDSPAudio filename m))
        = ([(WARN, DSPHLE, ''DSP Audio logging has already been started'')], snd (StartLogDSPAudio filename m))
    \<and> StopLogDSPAudio (snd (StopLogDSPAudio m))
        = ([(WARN, DSPHLE, ''DSP Audio logging has already been stopped'')], snd (StopLogDSPAudio m))"
proof -
  have 1: "StartLogDTKAudio filename a = ([(WARN, DSPHLE, ''DTK Audio logging has already been started'')], a)"
    using assms(1) by (simp add: StartLogDTKAudio_def)
  have 2: "StopLogDTKAudio b = ([(WARN, DSPHLE, ''DTK Audio logging has already been stopped'')], b)"
    using assms(2) by (simp add: StopLogDTKAudio_def)
  have 3: "StartLogDSPAudio filename c = ([(WARN, DSPHLE, ''DSP Audio logging has already been started'')], c)"
    using assms(3) by (simp add: StartLogDSPAudio_def)
  have 4: "StopLogDSPAudio d = ([(WARN, DSPHLE, ''DSP Audio logging has already been stopped'')], d)"
    using assms(4) by (simp add: StopLogDSPAudio_def)
  have 5: "StartLogDTKAudio filename' (snd (StartLogDTKAudio filename m))
        = ([(WARN, DSPHLE, ''DTK Audio logging has already been started'')], snd (StartLogDTKAudio filename m))"
    by (simp add: StartLogDTKAudio_def)
  have 6: "StopLogDTKAudio (snd (StopLogDTKAudio m))
        = ([(WARN, DSPHLE, ''DTK Audio logging has already been stopped'')], snd (StopLogDTKAudio m))"
    by (simp add: StopLogDTKAudio_def)
  have 7: "StartLogDSPAudio filename' (snd (StartLogDSPAudio filename m))
        = ([(WARN, DSPHLE, ''DSP Audio logging has already been started'')], snd (StartLogDSPAudio filename m))"
    by (simp add: StartLogDSPAudio_def)
  have 8: "StopLogDSPAudio (snd (StopLogDSPAudio m))
        = ([(WARN, DSPHLE, ''DSP Audio logging has already been stopped'')], snd (StopLogDSPAudio m))"
    by (simp add: StopLogDSPAudio_def)
  from 1 2 3 4 5 6 7 8 show ?thesis by blast
qed

theorem redundant_log_calls_witness:
  "m_log_dtk_audio (snd (StartLogDTKAudio ''dtk.wav'' example_mixer))
   \<and> \<not> m_log_dtk_audio example_mixer
   \<and> m_log_dsp_audio (snd (StartLogDSPAudio ''dsp.wav'' example_mixer))
   \<and> \<not> m_log_dsp_audio example_mixer
   \<and> StartLogDTKAudio ''again.wav'' (snd (StartLogDTKAudio ''dtk.wav'' example_mixer))
      = ([(WARN, DSPHLE, ''DTK Audio logging has already been started'')],
         snd (StartLogDTKAudio ''dtk.wav'' example_mixer))
   \<and> StopLogDTKAudio example_mixer
      = ([(WARN, DSPHLE, ''DTK Audio logging has already been stopped'')], example_mixer)
   \<and> StartLogDSPAudio ''again.wav'' (snd (StartLogDSPAudio ''dsp.wav'' example_mixer))
      = ([(WARN, DSPHLE, ''DSP Audio logging has already been started'')],
         snd (StartLogDSPAudio ''dsp.wav'' example_mixer))
   \<and> StopLogDSPAudio example_mixer
      = ([(WARN, DSPHLE, ''DSP Audio logging has already been stopped'')], example_mixer)
   \<and> g_wave_writer_dtk (snd (StartLogDTKAudio ''again.wav'' (snd (StartLogDTKAudio ''dtk.wav'' example_mixer))))
      = [Start ''dtk.wav'' 48000, SetSkipSilence False]"
proof -
  have h1: "m_log_dtk_audio (snd (StartLogDTKAudio ''dtk.wav'' example_mixer))"
    by (simp add: StartLogDTKAudio_def)
  have h2: "\<not> m_log_dtk_audio example_mixer"
    by (simp add: example_mixer_def new_CMixer_def)
  have h3: "m_log_dsp_audio (snd (StartLogDSPAudio ''dsp.wav'' example_mixer))"
    by (simp add: StartLogDSPAudio_def)
  have h4: "\<not> m_log_dsp_audio example_mixer"
    by (simp add: example_mixer_def new_CMixer_def)
  have w: "g_wave_writer_dtk (snd (StartLogDTKAudio ''dtk.wav'' example_mixer))
      = [Start ''dtk.wav'' 48000, SetSkipSilence False]"
    using h2 by (simp add: StartLogDTKAudio_def example_mixer_def new_CMixer_def)
  from redundant_log_calls [OF h1 h2 h3 h4, where filename = "''again.wav''" and m = example_mixer]
    h1 h2 h3 h4 w
  show ?thesis by simp
qed

section \<open>Rate control\<close>

lemma Clamp_range: "lo \<le> hi \<Longrightarrow> lo \<le> Clamp v lo hi \<and> Clamp v lo hi \<le> hi"
  by (simp add: Clamp_def)

lemma rate_control_range:
  assumes "0 \<le> MAX_FREQ_SHIFT c"
  shows "1 - MAX_FREQ_SHIFT c \<le> snd (rate_control c avg x)
         \<and> snd (rate_control c avg x) \<le> 1 + MAX_FREQ_SHIFT c"
proof -
  have "1 - MAX_FREQ_SHIFT c \<le> 1 + MAX_FREQ_SHIFT c" using assms by simp
  from Clamp_range [OF this] show ?thesis
    by (simp add: rate_control_def Let_def)
qed

text \<open>
  C3. Whatever fill fractions the rate controller is fed with, and whatever its
  average was before, every frequency shift it computes lies in
  \<open>[1 - MAX_FREQ_SHIFT, 1 + MAX_FREQ_SHIFT]\<close>, for a \<open>MAX_FREQ_SHIFT\<close> that is not
  negative.
\<close>

theorem frequency_shift_in_range:
  assumes "0 \<le> MAX_FREQ_SHIFT c"
  shows "\<forall>s \<in> set (rate_control_run c avg fills).
           1 - MAX_FREQ_SHIFT c \<le> s \<and> s \<le> 1 + MAX_FREQ_SHIFT c"
proof (induction fills arbitrary: avg)
  case Nil
  show ?case by simp
next
  case (Cons x rest)
  obtain avg' s where step: "rate_control c avg x = (avg', s)"
    by (cases "rate_control c avg x")
  have "1 - MAX_FREQ_SHIFT c \<le> s \<and> s \<le> 1 + MAX_FREQ_SHIFT c"
    using rate_control_range [OF assms, of avg x] step by simp
  with Cons.IH [of avg'] step show ?case by simp
qed

theorem frequency_shift_in_range_witness:
  "0 \<le> MAX_FREQ_SHIFT example_control
   \<and> rate_control_run example_control 0 [0, 1, 200] = [49 / 50, 49 / 50, 51 / 50]
   \<and> list_all (\<lambda>s. 1 - MAX_FREQ_SHIFT example_control \<le> s \<and> s \<le> 1 + MAX_FREQ_SHIFT example_control)
        (rate_control_run example_control 0 [0, 1, 200])"
proof -
  have h: "0 \<le> MAX_FREQ_SHIFT example_control"
    by (simp add: example_control_def)
  have v: "rate_control_run example_control 0 [0, 1, 200] = [49 / 50, 49 / 50, 51 / 50]"
    by (simp add: example_control_def rate_control_def Clamp_def Let_def)
  from frequency_shift_in_range [OF h, of 0 "[0, 1, 200]"] h v show ?thesis
    by (simp only: list_all_iff simp_thms)
qed

section \<open>Triangular dithering\<close>

lemma TriangleDither_eq:
  "TriangleDither RAND_MAX r (x, p)
     = (fl (x + fl (DITHER_NOISE RAND_MAX r - p)), DITHER_NOISE RAND_MAX r)"
  by (simp add: TriangleDither_def Let_def)

lemma finite_small: "\<bar>x\<bar> \<le> 2 ^ 32 \<Longrightarrow> \<bar>x\<bar> < 2 powi 128" for x :: real
proof -
  assume "\<bar>x\<bar> \<le> 2 ^ 32"
  moreover have "(2::real) ^ 32 < 2 ^ 128"
    by (rule power_strict_increasing) simp_all
  ultimately show ?thesis by simp
qed

lemma float_of_rand:
  assumes "0 \<le> r" and "r \<le> RAND_MAX" and "RAND_MAX < 2 ^ 31"
  shows "0 \<le> fl (real_of_int r) \<and> fl (real_of_int r) \<le> fl (real_of_int RAND_MAX)"
proof -
  have r: "\<bar>real_of_int r\<bar> \<le> 2 ^ 32" and m: "\<bar>real_of_int RAND_MAX\<bar> \<le> 2 ^ 32"
    using assms by simp_all
  have "fl 0 \<le> fl (real_of_int r)"
    using assms(1) by (intro fl_mono finite_small r) simp_all
  moreover have "fl (real_of_int r) \<le> fl (real_of_int RAND_MAX)"
    using assms(2) by (intro fl_mono finite_small r m) simp_all
  ultimately show ?thesis by simp
qed

lemma float_of_RAND_MAX:
  assumes "0 < RAND_MAX" and "RAND_MAX < 2 ^ 31"
  shows "1 \<le> fl (real_of_int RAND_MAX) \<and> fl (real_of_int RAND_MAX) \<le> 2 ^ 31"
proof -
  have m: "\<bar>real_of_int RAND_MAX\<bar> \<le> 2 ^ 32"
    using assms by simp
  have "fl 1 \<le> fl (real_of_int RAND_MAX)"
    using assms(1) by (intro fl_mono finite_small m) simp_all
  moreover have "fl (real_of_int RAND_MAX) \<le> fl 2147483648"
    using assms(2) by (intro fl_mono finite_small m) simp_all
  ultimately show ?thesis by (simp add: fl_1 fl_2_31)
qed

lemma rndrcp_range:
  assumes "0 < RAND_MAX" and "RAND_MAX < 2 ^ 31"
  shows "0 \<le> rndrcp RAND_MAX
    \<and> fl (real_of_int RAND_MAX) * rndrcp RAND_MAX \<le> 8 + 1 / 2 ^ 21"
proof -
  let ?R = "fl (real_of_int RAND_MAX)"
  let ?z = "8 / ?R"
  have R: "1 \<le> ?R" "?R \<le> 2 ^ 31"
    using float_of_RAND_MAX [OF assms] by simp_all
  have zpos: "0 < ?z" using R by simp
  have zle: "?z \<le> 8" using R by (simp add: field_simps)
  have "8 / 2 ^ 31 \<le> ?z"
    using R by (intro divide_left_mono) simp_all
  then have zlow: "2 powi (- 126) \<le> \<bar>?z\<bar>"
  proof -
    have "(2::real) powi (- 126) \<le> 2 powi (- 28)"
      by (simp add: powi2_le_iff)
    also have "(2::real) powi (- 28) = 8 / 2 ^ 31"
      by (simp add: power_int_minus field_simps)
    finally show ?thesis using \<open>8 / 2 ^ 31 \<le> ?z\<close> zpos by simp
  qed
  have "\<bar>fl ?z - ?z\<bar> \<le> \<bar>?z\<bar> / 2 ^ 24"
    using zlow by (rule fl_rel_err)
  then have c: "fl ?z \<le> ?z + ?z / 2 ^ 24"
    using zpos by simp
  have "fl 0 \<le> fl ?z"
    using zpos zle by (intro fl_mono finite_small) simp_all
  then have c0: "0 \<le> rndrcp RAND_MAX"
    by (simp add: rndrcp_def)
  have "?R * fl ?z \<le> ?R * (?z + ?z / 2 ^ 24)"
    using c R by (intro mult_left_mono) simp_all
  also have "\<dots> = 8 + 8 / 2 ^ 24"
    using R by (simp add: field_simps)
  also have "\<dots> = 8 + 1 / 2 ^ 21"
    by simp
  finally show ?thesis using c0 by (simp add: rndrcp_def)
qed

lemma DITHER_NOISE_range:
  assumes "0 < RAND_MAX" and "RAND_MAX < 2 ^ 31" and "0 \<le> r" and "r \<le> RAND_MAX"
  shows "- 4 \<le> DITHER_NOISE RAND_MAX r \<and> DITHER_NOISE RAND_MAX r \<le> 4"
proof -
  let ?a = "fl (real_of_int r)"
  let ?c = "rndrcp RAND_MAX"
  have a: "0 \<le> ?a" "?a \<le> fl (real_of_int RAND_MAX)"
    using float_of_rand [OF assms(3,4,2)] by simp_all
  have c: "0 \<le> ?c" "fl (real_of_int RAND_MAX) * ?c \<le> 8 + 1 / 2 ^ 21"
    using rndrcp_range [OF assms(1,2)] by simp_all
  have "?a * ?c \<le> fl (real_of_int RAND_MAX) * ?c"
    using a c by (intro mult_right_mono) simp_all
  with c have up: "?a * ?c \<le> 8 + 1 / 2 ^ 21" by linarith
  have low: "0 \<le> ?a * ?c" using a c by simp
  have fin: "\<bar>?a * ?c\<bar> \<le> 2 ^ 32" using up low by simp
  have "fl (?a * ?c) \<le> fl (8 + 1 / 2 ^ 21)"
    using up by (intro fl_mono finite_small fin) simp_all
  then have p_up: "fl (?a * ?c) \<le> 8" by (simp only: fl_tie_8)
  have "fl 0 \<le> fl (?a * ?c)"
    using low by (intro fl_mono finite_small fin) simp_all
  then have p_low: "0 \<le> fl (?a * ?c)" by simp
  have fin2: "\<bar>fl (?a * ?c) - 4\<bar> \<le> 2 ^ 32" using p_up p_low by simp
  have "fl (- 4) \<le> fl (fl (?a * ?c) - 4)"
    using p_low by (intro fl_mono finite_small fin2) simp_all
  moreover have "fl (fl (?a * ?c) - 4) \<le> fl 4"
    using p_up by (intro fl_mono finite_small fin2) simp_all
  ultimately show ?thesis
    by (simp add: DITHER_NOISE_def fl_4 fl_m4)
qed

lemma round_even_eval:
  assumes "real_of_int k - 1 / 2 < y" and "y < real_of_int k + 1 / 2"
  shows "round_even y = k"
proof -
  have "\<bar>real_of_int (round_even y) - y\<bar> \<le> 1 / 2"
    by (rule round_even_err)
  with assms have "\<bar>real_of_int (round_even y) - real_of_int k\<bar> < 1"
    by linarith
  then have "\<bar>round_even y - k\<bar> < 1"
    by (metis of_int_abs of_int_diff of_int_less_1_iff)
  then show ?thesis by simp
qed

lemma rndrcp_32767: "rndrcp 32767 = 8388864 / 2 ^ 35"
proof -
  have a: "fl (real_of_int 32767) = 32767"
    using fl_int [of 32767] by simp
  have "fl (8 / 32767)
      = real_of_int (round_even ((8 / 32767) / 2 powi (- 12 - 23))) * 2 powi (- 12 - 23)"
    by (rule fl_eval) (simp_all add: power_int_minus field_simps)
  moreover have "round_even ((8 / 32767) / 2 powi (- 12 - 23)) = 8388864"
    by (rule round_even_eval) (simp_all add: power_int_minus field_simps)
  ultimately have "fl (8 / 32767) = 8388864 / 2 ^ 35"
    by (simp add: power_int_minus field_simps)
  with a show ?thesis by (simp add: rndrcp_def)
qed

lemma DITHER_NOISE_32767: "DITHER_NOISE 32767 32767 = 4"
proof -
  have a: "fl (real_of_int 32767) = 32767"
    using fl_int [of 32767] by simp
  let ?y = "32767 * (8388864 / 2 ^ 35) :: real"
  have "fl ?y = real_of_int (round_even (?y / 2 powi (2 - 23))) * 2 powi (2 - 23)"
    by (rule fl_eval) (simp_all add: power_int_minus field_simps)
  moreover have "round_even (?y / 2 powi (2 - 23)) = 16777216"
    by (rule round_even_eval) (simp_all add: power_int_minus field_simps)
  ultimately have "fl ?y = 8"
    by (simp add: power_int_minus field_simps)
  then show ?thesis
    using a by (simp add: DITHER_NOISE_def rndrcp_32767 fl_4)
qed

lemma DITHER_NOISE_0: "DITHER_NOISE RAND_MAX 0 = - 4"
  by (simp add: DITHER_NOISE_def fl_m4)

lemma example_sample_offset:
  "fst (TriangleDither 32767 32767 (10066330 / 2 ^ 25, - 4)) - 10066330 / 2 ^ 25 = 8 + 3 / 2 ^ 24"
proof -
  let ?x = "10066330 / 2 ^ 25 :: real"
  have "fl (?x + 8) = real_of_int (round_even ((?x + 8) / 2 powi (3 - 23))) * 2 powi (3 - 23)"
    by (rule fl_eval) (simp_all add: power_int_minus field_simps)
  moreover have "round_even ((?x + 8) / 2 powi (3 - 23)) = 8703181"
    by (rule round_even_eval) (simp_all add: power_int_minus field_simps)
  ultimately have "fl (?x + 8) = 8703181 / 2 ^ 20"
    by (simp add: power_int_minus field_simps)
  then show ?thesis
    by (simp add: TriangleDither_eq DITHER_NOISE_32767 fl_8)
qed

lemma offset_range:
  assumes "\<bar>d\<bar> \<le> 4" and "\<bar>p\<bar> \<le> 4"
  shows "\<bar>fl (d - p)\<bar> \<le> 8"
proof -
  have f: "\<bar>d - p\<bar> < 2 powi 128" "\<bar>8::real\<bar> < 2 powi 128" "\<bar>- 8::real\<bar> < 2 powi 128"
    using assms by (auto intro!: finite_small)
  have "fl (d - p) \<le> fl 8"
    using assms f by (intro fl_mono) auto
  moreover have "fl (- 8) \<le> fl (d - p)"
    using assms f by (intro fl_mono) auto
  ultimately show ?thesis by (simp add: fl_8 fl_m8)
qed

lemma offset_err:
  assumes "\<bar>d\<bar> \<le> 4" and "\<bar>p\<bar> \<le> 4"
  shows "\<bar>fl (d - p) - (d - p)\<bar> \<le> 2 powi (- 21)"
proof -
  have "\<bar>d - p\<bar> < 2 powi 4" using assms by simp
  then have "exponent (d - p) < 4" by (rule exponent_less) simp
  then have "(2::real) powi (exponent (d - p) - 24) \<le> 2 powi (- 21)"
    by (intro power_int_increasing) auto
  with fl_err [of "d - p"] show ?thesis by linarith
qed

lemma sample_err:
  assumes "\<bar>x\<bar> + 8 < 2 powi K" and "\<bar>o'\<bar> \<le> 8"
  shows "\<bar>fl (x + o') - (x + o')\<bar> \<le> 2 powi (K - 25)"
proof -
  have K: "- 126 < K"
  proof (rule ccontr)
    assume "\<not> - 126 < K"
    then have "(2::real) powi K \<le> 2 powi 0" by (intro power_int_increasing) auto
    with assms show False by simp
  qed
  have "\<bar>x + o'\<bar> < 2 powi K" using assms by linarith
  then have "exponent (x + o') < K" using K by (rule exponent_less)
  then have "(2::real) powi (exponent (x + o') - 24) \<le> 2 powi (K - 25)"
    by (intro power_int_increasing) auto
  with fl_err [of "x + o'"] show ?thesis by linarith
qed

lemma TriangleDither_step:
  assumes "\<bar>DITHER_NOISE RAND_MAX r\<bar> \<le> 4" and "\<bar>p\<bar> \<le> 4" and "\<bar>x\<bar> + 8 < 2 powi K"
  shows "\<bar>fst (TriangleDither RAND_MAX r (x, p)) - x - (DITHER_NOISE RAND_MAX r - p)\<bar>
           \<le> 2 powi (- 21) + 2 powi (K - 25)"
proof -
  let ?d = "DITHER_NOISE RAND_MAX r"
  let ?o = "fl (?d - p)"
  have "\<bar>?o\<bar> \<le> 8" using assms(1,2) by (rule offset_range)
  then have "\<bar>fl (x + ?o) - (x + ?o)\<bar> \<le> 2 powi (K - 25)"
    using assms(3) by (intro sample_err)
  moreover have "\<bar>?o - (?d - p)\<bar> \<le> 2 powi (- 21)"
    using assms(1,2) by (rule offset_err)
  ultimately show ?thesis
    unfolding TriangleDither_eq fst_conv by linarith
qed


lemma TriangleDither_run_length:
  "length (fst (TriangleDither_run RAND_MAX rs prev xs)) = length xs"
  by (induction xs arbitrary: rs prev) (simp_all add: TriangleDither_eq case_prod_beta Let_def)

lemma TriangleDither_run_last:
  "xs \<noteq> [] \<Longrightarrow>
   snd (TriangleDither_run RAND_MAX rs prev xs) = DITHER_NOISE RAND_MAX (rs !! (length xs - 1))"
proof (induction xs arbitrary: rs prev)
  case Nil
  then show ?case by simp
next
  case (Cons x xs)
  show ?case
  proof (cases xs)
    case Nil
    then show ?thesis by (simp add: TriangleDither_eq)
  next
    case (Cons y ys)
    then have "xs \<noteq> []" by simp
    from Cons.IH [OF this, of "stl rs" "DITHER_NOISE RAND_MAX (shd rs)"] Cons
    show ?thesis by (simp add: TriangleDither_eq case_prod_beta Let_def)
  qed
qed

lemma rand_tail:
  assumes "\<forall>k < length (x # xs). 0 \<le> rs !! k \<and> rs !! k \<le> RAND_MAX"
  shows "0 \<le> shd rs \<and> shd rs \<le> RAND_MAX"
    and "\<forall>k < length xs. 0 \<le> stl rs !! k \<and> stl rs !! k \<le> RAND_MAX"
proof -
  have "0 < length (x # xs)" by simp
  with assms have "0 \<le> rs !! 0 \<and> rs !! 0 \<le> RAND_MAX" by blast
  then show "0 \<le> shd rs \<and> shd rs \<le> RAND_MAX" by simp
  show "\<forall>k < length xs. 0 \<le> stl rs !! k \<and> stl rs !! k \<le> RAND_MAX"
  proof (intro allI impI)
    fix k assume "k < length xs"
    then have "Suc k < length (x # xs)" by simp
    with assms have "0 \<le> rs !! Suc k \<and> rs !! Suc k \<le> RAND_MAX" by blast
    then show "0 \<le> stl rs !! k \<and> stl rs !! k \<le> RAND_MAX" by simp
  qed
qed

lemma TriangleDither_run_state:
  assumes "0 < RAND_MAX" and "RAND_MAX < 2 ^ 31"
    and "\<forall>k < length xs. 0 \<le> rs !! k \<and> rs !! k \<le> RAND_MAX"
    and "\<bar>prev\<bar> \<le> 4"
  shows "\<bar>snd (TriangleDither_run RAND_MAX rs prev xs)\<bar> \<le> 4"
proof (cases "xs = []")
  case True
  then show ?thesis using assms(4) by simp
next
  case False
  then have "length xs - 1 < length xs" by simp
  with assms(3) have "0 \<le> rs !! (length xs - 1) \<and> rs !! (length xs - 1) \<le> RAND_MAX"
    by blast
  with DITHER_NOISE_range [OF assms(1,2), of "rs !! (length xs - 1)"]
  have "\<bar>DITHER_NOISE RAND_MAX (rs !! (length xs - 1))\<bar> \<le> 4" by linarith
  with TriangleDither_run_last [OF False, of RAND_MAX rs prev] show ?thesis by simp
qed

lemma TriangleDither_run_drift:
  assumes "0 < RAND_MAX" and "RAND_MAX < 2 ^ 31"
    and "\<forall>k < length xs. 0 \<le> rs !! k \<and> rs !! k \<le> RAND_MAX"
    and "\<bar>prev\<bar> \<le> 4"
    and "\<forall>i < length xs. \<bar>xs ! i\<bar> + 8 < 2 powi K"
  shows "\<bar>sum_list (map2 (\<lambda>y x. y - x) (fst (TriangleDither_run RAND_MAX rs prev xs)) xs)
           - (snd (TriangleDither_run RAND_MAX rs prev xs) - prev)\<bar>
         \<le> real (length xs) * (2 powi (- 21) + 2 powi (K - 25))"
  using assms(3-)
proof (induction xs arbitrary: rs prev)
  case Nil
  show ?case by simp
next
  case (Cons x xs)
  let ?d = "DITHER_NOISE RAND_MAX (shd rs)"
  let ?y = "fst (TriangleDither RAND_MAX (shd rs) (x, prev))"
  let ?e = "2 powi (- 21) + 2 powi (K - 25) :: real"
  let ?run = "TriangleDither_run RAND_MAX (stl rs) ?d xs"
  from rand_tail [OF Cons.prems(1)]
  have r0: "0 \<le> shd rs \<and> shd rs \<le> RAND_MAX"
    and r1: "\<forall>k < length xs. 0 \<le> stl rs !! k \<and> stl rs !! k \<le> RAND_MAX"
    by blast+
  have d: "\<bar>?d\<bar> \<le> 4"
    using DITHER_NOISE_range [OF assms(1,2), of "shd rs"] r0 by linarith
  have "0 < length (x # xs)" by simp
  with Cons.prems(3) have "\<bar>(x # xs) ! 0\<bar> + 8 < 2 powi K" by blast
  then have x: "\<bar>x\<bar> + 8 < 2 powi K" by simp
  have xs: "\<forall>i < length xs. \<bar>xs ! i\<bar> + 8 < 2 powi K"
  proof (intro allI impI)
    fix i assume "i < length xs"
    then have "Suc i < length (x # xs)" by simp
    with Cons.prems(3) have "\<bar>(x # xs) ! Suc i\<bar> + 8 < 2 powi K" by blast
    then show "\<bar>xs ! i\<bar> + 8 < 2 powi K" by simp
  qed
  have step: "\<bar>?y - x - (?d - prev)\<bar> \<le> ?e"
    using d Cons.prems(2) x by (rule TriangleDither_step)
  have rest: "\<bar>sum_list (map2 (\<lambda>y x. y - x) (fst ?run) xs) - (snd ?run - ?d)\<bar>
      \<le> real (length xs) * ?e"
    by (rule Cons.IH [OF r1 d xs])
  have run: "TriangleDither_run RAND_MAX rs prev (x # xs) = (?y # fst ?run, snd ?run)"
    by (simp add: TriangleDither_eq case_prod_beta Let_def)
  have "sum_list (map2 (\<lambda>y x. y - x) (fst (TriangleDither_run RAND_MAX rs prev (x # xs))) (x # xs))
        - (snd (TriangleDither_run RAND_MAX rs prev (x # xs)) - prev)
      = (?y - x - (?d - prev))
        + (sum_list (map2 (\<lambda>y x. y - x) (fst ?run) xs) - (snd ?run - ?d))"
    unfolding run by simp
  moreover have "real (length (x # xs)) * ?e = ?e + real (length xs) * ?e"
    by (simp add: algebra_simps)
  ultimately show ?case
    using step rest by linarith
qed






lemma example_run:
  "TriangleDither_run 32767 (0 ## 32767 ## sconst (0::int)) 0 [10, 20] = ([6, 28], 4)"
  using fl_int [of 6] fl_int [of 28]
  by (simp add: TriangleDither_eq DITHER_NOISE_0 DITHER_NOISE_32767 fl_8 fl_m4)


text \<open>
  C10, as amended. Over \<open>n\<close> consecutive calls of \<open>TriangleDither\<close> on the same
  state, with results of \<open>rand()\<close> in \<open>[0, RAND_MAX]\<close>, an initial state in \<open>[-4, 4]\<close>
  (the constructor's zero or an earlier dither value) and samples \<open>x\<close> with
  \<open>\<bar>x\<bar> + 8 < 2^K\<close>, the state stays in \<open>[-4, 4]\<close> and is the last dither value. The
  offsets added to the \<open>n\<close> samples sum to the last dither value minus the initial
  state up to the rounding of the two float operations of each call: the sum
  differs from that difference by at most \<open>n * (2^-21 + 2^(K-25))\<close>, and is at most
  \<open>8 + n * (2^-21 + 2^(K-25))\<close> in magnitude.
\<close>

theorem dither_run_telescopes:
  assumes "0 < RAND_MAX" and "RAND_MAX < 2 ^ 31"
    and "\<forall>k < length xs. 0 \<le> rs !! k \<and> rs !! k \<le> RAND_MAX"
    and "\<bar>prev\<bar> \<le> 4"
    and "\<forall>i < length xs. \<bar>xs ! i\<bar> + 8 < 2 powi K" and "K \<le> 127"
  shows "length (fst (TriangleDither_run RAND_MAX rs prev xs)) = length xs
    \<and> snd (TriangleDither_run RAND_MAX rs prev xs)
        = (if xs = [] then prev else DITHER_NOISE RAND_MAX (rs !! (length xs - 1)))
    \<and> \<bar>snd (TriangleDither_run RAND_MAX rs prev xs)\<bar> \<le> 4
    \<and> \<bar>sum_list (map2 (\<lambda>y x. y - x) (fst (TriangleDither_run RAND_MAX rs prev xs)) xs)
           - (snd (TriangleDither_run RAND_MAX rs prev xs) - prev)\<bar>
         \<le> real (length xs) * (2 powi (- 21) + 2 powi (K - 25))
    \<and> \<bar>sum_list (map2 (\<lambda>y x. y - x) (fst (TriangleDither_run RAND_MAX rs prev xs)) xs)\<bar>
         \<le> 8 + real (length xs) * (2 powi (- 21) + 2 powi (K - 25))"
proof -
  let ?p = "snd (TriangleDither_run RAND_MAX rs prev xs)"
  have last: "?p = (if xs = [] then prev else DITHER_NOISE RAND_MAX (rs !! (length xs - 1)))"
    using TriangleDither_run_last [of xs RAND_MAX rs prev] by simp
  have bound: "\<bar>?p\<bar> \<le> 4"
    by (rule TriangleDither_run_state [OF assms(1-4)])
  have drift: "\<bar>sum_list (map2 (\<lambda>y x. y - x) (fst (TriangleDither_run RAND_MAX rs prev xs)) xs)
           - (?p - prev)\<bar> \<le> real (length xs) * (2 powi (- 21) + 2 powi (K - 25))"
    by (rule TriangleDither_run_drift [OF assms(1-5)])
  have "\<bar>?p - prev\<bar> \<le> 8" using bound assms(4) by linarith
  with drift have "\<bar>sum_list (map2 (\<lambda>y x. y - x) (fst (TriangleDither_run RAND_MAX rs prev xs)) xs)\<bar>
         \<le> 8 + real (length xs) * (2 powi (- 21) + 2 powi (K - 25))"
    by linarith
  with last bound drift TriangleDither_run_length [of RAND_MAX rs prev xs]
  show ?thesis by blast
qed

theorem dither_run_telescopes_witness:
  "(0::int) < 32767 \<and> (32767::int) < 2 ^ 31
   \<and> (0 ## 32767 ## sconst (0::int)) !! 0 = 0 \<and> (0 ## 32767 ## sconst (0::int)) !! 1 = 32767
   \<and> \<bar>0 :: real\<bar> \<le> 4
   \<and> \<bar>10 :: real\<bar> + 8 < 2 powi 5 \<and> \<bar>20 :: real\<bar> + 8 < 2 powi 5 \<and> (5 :: int) \<le> 127
   \<and> TriangleDither_run 32767 (0 ## 32767 ## sconst (0::int)) 0 [10, 20] = ([6, 28], 4)
   \<and> \<bar>sum_list (map2 (\<lambda>y x. y - x) (fst (TriangleDither_run 32767 (0 ## 32767 ## sconst (0::int)) 0 [10, 20])) [10, 20])
        - (snd (TriangleDither_run 32767 (0 ## 32767 ## sconst (0::int)) 0 [10, 20]) - 0)\<bar>
      \<le> real (length [10, 20 :: real]) * (2 powi (- 21) + 2 powi (5 - 25))
   \<and> \<bar>sum_list (map2 (\<lambda>y x. y - x) (fst (TriangleDither_run 32767 (0 ## 32767 ## sconst (0::int)) 0 [10, 20])) [10, 20])\<bar>
      \<le> 8 + real (length [10, 20 :: real]) * (2 powi (- 21) + 2 powi (5 - 25))"
proof -
  have h1: "(0::int) < 32767" and h2: "(32767::int) < 2 ^ 31" by simp_all
  have e: "(0 ## 32767 ## sconst (0::int)) !! 0 = 0" "(0 ## 32767 ## sconst (0::int)) !! 1 = 32767"
    by simp_all
  have h3: "\<forall>k < length [10, 20 :: real]. 0 \<le> (0 ## 32767 ## sconst (0::int)) !! k
        \<and> (0 ## 32767 ## sconst (0::int)) !! k \<le> (32767::int)"
    by (simp add: less_Suc_eq)
  have h4: "\<bar>0 :: real\<bar> \<le> 4" by simp
  have x: "\<bar>10 :: real\<bar> + 8 < 2 powi 5" "\<bar>20 :: real\<bar> + 8 < 2 powi 5" by simp_all
  then have h5: "\<forall>i < length [10, 20 :: real]. \<bar>[10, 20 :: real] ! i\<bar> + 8 < 2 powi 5"
    by (simp add: less_Suc_eq)
  have h6: "(5 :: int) \<le> 127" by simp
  note t = dither_run_telescopes [OF h1 h2 h3 h4 h5 h6]
  from t have
    "\<bar>sum_list (map2 (\<lambda>y x. y - x) (fst (TriangleDither_run 32767 (0 ## 32767 ## sconst (0::int)) 0 [10, 20])) [10, 20])
        - (snd (TriangleDither_run 32767 (0 ## 32767 ## sconst (0::int)) 0 [10, 20]) - 0)\<bar>
      \<le> real (length [10, 20 :: real]) * (2 powi (- 21) + 2 powi (5 - 25))"
    "\<bar>sum_list (map2 (\<lambda>y x. y - x) (fst (TriangleDither_run 32767 (0 ## 32767 ## sconst (0::int)) 0 [10, 20])) [10, 20])\<bar>
      \<le> 8 + real (length [10, 20 :: real]) * (2 powi (- 21) + 2 powi (5 - 25))"
    by blast+
  with h1 h2 e h4 x h6 example_run show ?thesis by blast
qed

text \<open>
  C10, as stated, fails in float arithmetic. The state \<open>-4\<close> is what a call with
  \<open>rand() = 0\<close> leaves. From it, one call with \<open>rand() = RAND_MAX = 32767\<close> on the
  sample \<open>0.3f = 10066330 / 2^25\<close> makes the dither value \<open>4\<close> and the sample
  \<open>8703181 / 2^20\<close>: the offset added is \<open>8 + 3 / 2^24\<close>, which is not the last dither
  value minus the initial state (that is \<open>8\<close>) and exceeds \<open>8\<close>.
\<close>

theorem dither_run_exceeds_8:
  "binary32 (10066330 / 2 ^ 25)
   \<and> snd (TriangleDither 32767 0 (0, 0)) = - 4
   \<and> TriangleDither_run 32767 (sconst 32767) (- 4) [10066330 / 2 ^ 25]
      = ([8703181 / 2 ^ 20], 4)
   \<and> sum_list (map2 (\<lambda>y x. y - x)
        (fst (TriangleDither_run 32767 (sconst 32767) (- 4) [10066330 / 2 ^ 25])) [10066330 / 2 ^ 25])
      = 8 + 3 / 2 ^ 24
   \<and> snd (TriangleDither_run 32767 (sconst 32767) (- 4) [10066330 / 2 ^ 25]) - (- 4) = 8
   \<and> \<not> \<bar>sum_list (map2 (\<lambda>y x. y - x)
        (fst (TriangleDither_run 32767 (sconst 32767) (- 4) [10066330 / 2 ^ 25])) [10066330 / 2 ^ 25])\<bar>
      \<le> 8"
proof -
  have b: "binary32 (10066330 / 2 ^ 25)"
    unfolding binary32_def
    by (rule exI [of _ 10066330], rule exI [of _ 25]) simp
  have s: "snd (TriangleDither 32767 0 (0, 0)) = - 4"
    by (simp add: TriangleDither_eq DITHER_NOISE_0)
  have y: "fst (TriangleDither 32767 32767 (10066330 / 2 ^ 25, - 4)) = 8703181 / 2 ^ 20"
    using example_sample_offset by simp
  have run: "TriangleDither_run 32767 (sconst 32767) (- 4) [10066330 / 2 ^ 25]
      = ([8703181 / 2 ^ 20], 4)"
    using y by (simp add: case_prod_beta TriangleDither_eq DITHER_NOISE_32767)
  show ?thesis
    unfolding run using b s by simp
qed

section \<open>Storage of the ring buffer\<close>












section \<open>Push\<close>



lemma new_MixerFifo_indices:
  "m_write_index (new_MixerFifo k b r) = 0 \<and> m_read_index (new_MixerFifo k b r) = 0"
  by (simp add: new_MixerFifo_def)

section \<open>Pull\<close>





lemma skip_lost_id:
  "m_write_index f - m_read_index f \<le> MAX_SAMPLES \<Longrightarrow> skip_lost f = f"
  by (simp add: skip_lost_def Let_def not_less)




























section \<open>Round trip of a constant\<close>






















end
